theory Spec2Isabelle
  imports Complex_Main "HOL-Library.Word"
begin

section \<open>Data model (src/types.ts)\<close>

text \<open>
  A JavaScript \<open>number\<close> is modelled as an exact \<^typ>\<open>real\<close>: the development is about the
  arithmetic the program writes down, not about binary64 rounding. Grid sizes and loop
  counters, which the program obtains with \<open>Math.floor\<close> and \<open>++\<close>, are integers.
\<close>

datatype Shape = Circle | Square

record PlateConfig =
  width :: real
  height :: real
  spacing :: real
  minHoleSize :: real
  maxHoleSize :: real
  margin :: real
  inverted :: bool
  threshold :: real
  shape :: Shape

text \<open>
  The fields of \<open>Dot\<close> are \<open>x\<close>, \<open>y\<close> and \<open>r\<close> in the source; they carry a prefix here
  because a record field is a constant.
\<close>

record Dot =
  dot_x :: real
  dot_y :: real
  dot_r :: real

section \<open>The grid (App.tsx, lines 73--83)\<close>

definition effW :: "PlateConfig \<Rightarrow> real" where
  "effW config = max 0 (width config - (margin config * 2))"

definition effH :: "PlateConfig \<Rightarrow> real" where
  "effH config = max 0 (height config - (margin config * 2))"

text \<open>
  \<open>Math.floor(effW / config.spacing)\<close>. The quotient is infinite in JavaScript when the
  spacing is zero; the callers below branch on that case before they use \<open>cols\<close> and
  \<open>rows\<close>.
\<close>

definition cols :: "PlateConfig \<Rightarrow> int" where
  "cols config = \<lfloor>effW config / spacing config\<rfloor>"

definition rows :: "PlateConfig \<Rightarrow> int" where
  "rows config = \<lfloor>effH config / spacing config\<rfloor>"

section \<open>Radius mapping (App.tsx, lines 96--97 and 123--128)\<close>

definition radiusRange :: "PlateConfig \<Rightarrow> real" where
  "radiusRange config = (maxHoleSize config - minHoleSize config) / 2"

definition minRad :: "PlateConfig \<Rightarrow> real" where
  "minRad config = minHoleSize config / 2"

text \<open>
  The argument \<open>norm0\<close> is the value of \<open>norm\<close> after line 121, the luminance divided by
  255; the body is lines 123 to 128.
\<close>

definition radius :: "PlateConfig \<Rightarrow> real \<Rightarrow> real" where
  "radius config norm0 =
     (let norm = (if inverted config then 1 - norm0 else norm0);
          sizeFactor = 1 - norm
      in minRad config + (sizeFactor * radiusRange config))"

section \<open>The pixel buffer (App.tsx, lines 85--93)\<close>

text \<open>
  \<open>imageData.data\<close> is a \<open>Uint8ClampedArray\<close>: a sequence of bytes, four per pixel. The
  decoded picture and the canvas are outside the program; a picture is modelled by what the
  canvas returns for it: \<open>img c r i\<close> is byte \<open>i\<close> of the buffer obtained after the picture was
  drawn at \<open>c\<close> by \<open>r\<close> pixels. \<open>getImageData\<close> then has \<open>4 * c * r\<close> bytes, as the canvas
  guarantees. With a negative spacing the sizes are negative; the loops then visit no cell
  and the buffer is never read.
\<close>

type_synonym pixels = "8 word list"

type_synonym image = "nat \<Rightarrow> nat \<Rightarrow> nat \<Rightarrow> 8 word"

definition getImageData :: "image \<Rightarrow> int \<Rightarrow> int \<Rightarrow> pixels" where
  "getImageData img c r = map (img (nat c) (nat r)) [0 ..< 4 * nat c * nat r]"

text \<open>
  \<open>data[idx]\<close>: reading a typed array outside its range gives \<open>undefined\<close>, which the
  arithmetic that follows turns into \<open>NaN\<close>; \<open>None\<close> stands for that.
\<close>

definition data_at :: "pixels \<Rightarrow> int \<Rightarrow> real option" where
  "data_at data idx =
     (if 0 \<le> idx \<and> idx < int (length data) then Some (real (unat (data ! nat idx))) else None)"

definition luminance :: "pixels \<Rightarrow> int \<Rightarrow> real option" where
  "luminance data idx =
     (case data_at data idx of None \<Rightarrow> None | Some r \<Rightarrow>
      (case data_at data (idx + 1) of None \<Rightarrow> None | Some g \<Rightarrow>
       (case data_at data (idx + 2) of None \<Rightarrow> None | Some b \<Rightarrow>
          Some (0.299 * r + 0.587 * g + 0.114 * b))))"

section \<open>The cell loop (App.tsx, lines 114--136)\<close>

definition physX :: "PlateConfig \<Rightarrow> int \<Rightarrow> real" where
  "physX config x = margin config + (of_int x * spacing config) + (spacing config / 2)"

definition physY :: "PlateConfig \<Rightarrow> int \<Rightarrow> real" where
  "physY config y = margin config + (of_int y * spacing config) + (spacing config / 2)"

text \<open>
  The body of the inner loop for the cell in column \<open>x\<close> of row \<open>y\<close>. A \<open>NaN\<close> radius fails
  the comparison \<open>radius > 0.1\<close>, so nothing is pushed.
\<close>

definition cell :: "PlateConfig \<Rightarrow> pixels \<Rightarrow> int \<Rightarrow> int \<Rightarrow> Dot list \<Rightarrow> Dot list" where
  "cell config data y x newDots =
     (let idx = (y * cols config + x) * 4 in
      case luminance data idx of
        None \<Rightarrow> newDots
      | Some lum \<Rightarrow>
          (let norm = lum / 255;
               rad = radius config norm
           in if rad > 0.1
              then newDots @ [\<lparr>dot_x = physX config x, dot_y = physY config y, dot_r = rad\<rparr>]
              else newDots))"

function forCols :: "PlateConfig \<Rightarrow> pixels \<Rightarrow> int \<Rightarrow> int \<Rightarrow> Dot list \<Rightarrow> Dot list" where
  "forCols config data y x newDots =
     (if x < cols config then forCols config data y (x + 1) (cell config data y x newDots)
      else newDots)"
  by pat_completeness auto
termination
  by (relation "measure (\<lambda>(config, data, y, x, newDots). nat (cols config - x))") auto

declare forCols.simps [simp del]

section \<open>The chunked row loop (App.tsx, lines 102--143)\<close>

text \<open>
  One call of \<open>processChunk\<close> runs the \<open>while\<close> loop until the rows are exhausted or the
  clock test of line 108 fires. The clock is not part of the model: the budget \<open>k\<close> is the
  number of times the test passes in this call before it fires. \<open>Yield\<close> is the exit at
  line 111 with the row reached and the dots collected so far, \<open>Complete\<close> the exit at
  line 138.
\<close>

datatype chunk = Yield int "Dot list" | Complete "Dot list"

function whileRows :: "PlateConfig \<Rightarrow> pixels \<Rightarrow> nat \<Rightarrow> int \<Rightarrow> Dot list \<Rightarrow> chunk" where
  "whileRows config data k y newDots =
     (if y < rows config
      then (if k = 0 then Yield y newDots
            else whileRows config data (k - 1) (y + 1) (forCols config data y 0 newDots))
      else Complete newDots)"
  by pat_completeness auto
termination
  by (relation "measure (\<lambda>(config, data, k, y, newDots). k)") auto

declare whileRows.simps [simp del]

section \<open>One generation run (App.tsx, lines 65--146)\<close>

text \<open>
  The outcome of a run whose successive chunks have the budgets \<open>ks\<close>. \<open>Published\<close> is a
  call of \<open>setDots\<close>; \<open>Suspended\<close> is a run that has yielded and waits for its next
  animation frame when the schedule ends (with the empty schedule, a run about to execute
  its first chunk); \<open>Threw\<close> is a run whose handler ends with an exception of the canvas
  before anything is published.

  The handler has no guard between the sizes of lines 82 and 83 and the call of
  \<open>getImageData\<close> at line 92, and that call throws for a size it does not accept: a
  \<open>TypeError\<close> for a size that is not finite, which is the case of spacing zero, and an
  \<open>IndexSizeError\<close> for a width or a height of zero, which is the case of an effective
  size that is positive and smaller than the spacing. \<open>getImageDataThrows\<close> collects these
  cases.
\<close>

datatype outcome = Threw | Suspended int "Dot list" | Published "Dot list"

definition getImageDataThrows :: "PlateConfig \<Rightarrow> bool" where
  "getImageDataThrows config \<longleftrightarrow> spacing config = 0 \<or> cols config = 0 \<or> rows config = 0"

fun runChunks :: "PlateConfig \<Rightarrow> pixels \<Rightarrow> nat list \<Rightarrow> int \<Rightarrow> Dot list \<Rightarrow> outcome" where
  "runChunks config data [] y newDots = Suspended y newDots"
| "runChunks config data (k # ks) y newDots =
     (case whileRows config data k y newDots of
        Yield y' newDots' \<Rightarrow> runChunks config data ks y' newDots'
      | Complete newDots' \<Rightarrow> Published newDots')"

definition generationRun :: "PlateConfig \<Rightarrow> image \<Rightarrow> nat list \<Rightarrow> outcome" where
  "generationRun config img ks =
     (if effW config \<le> 0 \<or> effH config \<le> 0 then Published []
      else if getImageDataThrows config then Threw
      else runChunks config (getImageData img (cols config) (rows config)) ks 0 [])"

section \<open>The component and its runs (App.tsx, lines 19--161)\<close>














section \<open>Vector export (App.tsx, lines 164--182)\<close>

text \<open>
  Two conversions of the language turn a number into text. \<open>numberToString\<close> is the
  conversion a template literal applies to a substituted number such as \<open>finalWidth\<close>: the
  shortest decimal numeral that denotes the number. It is modelled for the numbers whose
  text does not depend on their binary representation and that the language writes without
  an exponent: zero and the decimals of at most fifteen digits (counted from the first digit
  that is not zero to the last decimal place) with a magnitude of at least \<open>10\<^sup>-\<^sup>6\<close>. For
  these \<open>decimalPlaces\<close> finds the number \<open>f\<close> of decimal places, and the text is the integer
  part, followed for \<open>f > 0\<close> by a point and \<open>f\<close> digits. \<open>toFixed2\<close> is \<open>toFixed(2)\<close> as the
  language standard defines it: with \<open>n\<close> the integer nearest to a hundred times the
  magnitude (the larger one on a tie), the numeral of \<open>n\<close>, padded with zeros to three
  digits, with a point before its last two digits; from \<open>10\<^sup>2\<^sup>1\<close> on the standard falls
  back to the first conversion. \<open>None\<close> is a number outside the modelled range.
\<close>

definition digit :: "nat \<Rightarrow> char" where
  "digit d = char_of (48 + d)"

fun digits :: "nat \<Rightarrow> string" where
  "digits n = (if n < 10 then [digit n] else digits (n div 10) @ [digit (n mod 10)])"

declare digits.simps [simp del]

definition decimalPlaces :: "real \<Rightarrow> nat option" where
  "decimalPlaces v = List.find (\<lambda>f. of_int \<lfloor>v * 10 ^ f\<rfloor> = v * 10 ^ f) [0 ..< 22]"

definition decimalText :: "real \<Rightarrow> nat \<Rightarrow> string option" where
  "decimalText v f =
     (let n = \<lfloor>\<bar>v\<bar> * 10 ^ f\<rfloor>;
          fraction = digits (nat (n mod 10 ^ f))
      in if n < 10 ^ 15 \<and> (v = 0 \<or> 1 / 10 ^ 6 \<le> \<bar>v\<bar>)
         then Some ((if v < 0 then ''-'' else []) @
                    (if f = 0 then digits (nat n)
                     else digits (nat (n div 10 ^ f)) @ ''.'' @
                          replicate (f - length fraction) (CHR ''0'') @ fraction))
         else None)"

definition numberToString :: "real \<Rightarrow> string option" where
  "numberToString v = Option.bind (decimalPlaces \<bar>v\<bar>) (decimalText v)"

definition toFixed2 :: "real \<Rightarrow> string option" where
  "toFixed2 v =
     (if \<bar>v\<bar> < 10 ^ 21
      then (let s = (if v < 0 then ''-'' else []);
                n = nat \<lfloor>\<bar>v\<bar> * 100 + 1 / 2\<rfloor>;
                m = digits n;
                m = (if length m \<le> 2 then replicate (3 - length m) (CHR ''0'') @ m else m);
                k = length m;
                a = take (k - 2) m;
                b = drop (k - 2) m
            in Some (s @ a @ ''.'' @ b))
      else None)"

text \<open>\<open>String.prototype.trim\<close> on the characters that the template can hold.\<close>

definition isWhiteSpace :: "char \<Rightarrow> bool" where
  "isWhiteSpace c \<longleftrightarrow> c \<in> {CHR '' '', CHR 0x09, CHR 0x0A, CHR 0x0B, CHR 0x0C, CHR 0x0D}"

definition trim :: "string \<Rightarrow> string" where
  "trim s = rev (dropWhile isWhiteSpace (rev (dropWhile isWhiteSpace s)))"

text \<open>
  The two template literals of lines 170 to 182, with the values of their substitutions as
  arguments.
\<close>

definition circle :: "string \<Rightarrow> string \<Rightarrow> string \<Rightarrow> string" where
  "circle cx cy r = ''<circle cx=\"'' @ cx @ ''\" cy=\"'' @ cy @ ''\" r=\"'' @ r @ ''\" />''"

definition svgTemplate :: "string \<Rightarrow> string \<Rightarrow> string \<Rightarrow> string" where
  "svgTemplate finalWidth finalHeight circles =
     ''\<newline><svg \<newline>'' @
     ''    xmlns=\"http://www.w3.org/2000/svg\" \<newline>'' @
     ''    width=\"'' @ finalWidth @ ''mm\" \<newline>'' @
     ''    height=\"'' @ finalHeight @ ''mm\" \<newline>'' @
     ''    viewBox=\"0 0 '' @ finalWidth @ '' '' @ finalHeight @ ''\"\<newline>'' @
     ''>\<newline>'' @
     ''    <!-- Created with PerfoMate -->\<newline>'' @
     ''    <rect x=\"0\" y=\"0\" width=\"'' @ finalWidth @ ''\" height=\"'' @ finalHeight @
       ''\" fill=\"none\" stroke=\"black\" stroke-width=\"0.5\" />\<newline>'' @
     ''    <g fill=\"black\">\<newline>'' @
     ''        '' @ circles @ ''\<newline>'' @
     ''    </g>\<newline>'' @
     ''</svg>''"

definition circleElement :: "Dot \<Rightarrow> string option" where
  "circleElement d =
     (case toFixed2 (dot_x d) of None \<Rightarrow> None | Some cx \<Rightarrow>
      (case toFixed2 (dot_y d) of None \<Rightarrow> None | Some cy \<Rightarrow>
       (case toFixed2 (dot_r d) of None \<Rightarrow> None | Some r \<Rightarrow> Some (circle cx cy r))))"

definition svgContent :: "PlateConfig \<Rightarrow> Dot list \<Rightarrow> string option" where
  "svgContent config dots =
     (case numberToString (width config) of None \<Rightarrow> None | Some finalWidth \<Rightarrow>
      (case numberToString (height config) of None \<Rightarrow> None | Some finalHeight \<Rightarrow>
       (case those (map circleElement dots) of None \<Rightarrow> None | Some cs \<Rightarrow>
          Some (trim (svgTemplate finalWidth finalHeight (concat cs))))))"

text \<open>
  \<open>handleExport\<close> up to the document it builds; the download that follows is outside the
  model. \<open>NoExport\<close> is the return of line 165, \<open>Unrendered\<close> a document with a number
  outside the modelled range.
\<close>

datatype export = NoExport | Unrendered | Svg string

definition handleExport :: "PlateConfig \<Rightarrow> Dot list \<Rightarrow> export" where
  "handleExport config dots =
     (if length dots = 0 then NoExport
      else case svgContent config dots of None \<Rightarrow> Unrendered | Some doc \<Rightarrow> Svg doc)"

text \<open>
  A numeral with fixed 2-decimal precision: an optional sign, at least one digit, a point
  and exactly two digits.
\<close>

definition isDigit :: "char \<Rightarrow> bool" where
  "isDigit c \<longleftrightarrow> c \<in> set ''0123456789''"

definition fixed2 :: "string \<Rightarrow> bool" where
  "fixed2 s =
     (let t = (case s of [] \<Rightarrow> s | c # u \<Rightarrow> if c = CHR ''-'' then u else s);
          k = length t
      in 4 \<le> k \<and> list_all isDigit (take (k - 3) t) \<and> t ! (k - 3) = CHR ''.''
         \<and> list_all isDigit (drop (k - 2) t))"

text \<open>
  The document as the specification words it, with every substituted number written by
  \<open>toFixed(2)\<close>; it is compared with \<open>svgContent\<close> below.
\<close>

definition svgContentFixed2 :: "PlateConfig \<Rightarrow> Dot list \<Rightarrow> string option" where
  "svgContentFixed2 config dots =
     (case toFixed2 (width config) of None \<Rightarrow> None | Some finalWidth \<Rightarrow>
      (case toFixed2 (height config) of None \<Rightarrow> None | Some finalHeight \<Rightarrow>
       (case those (map circleElement dots) of None \<Rightarrow> None | Some cs \<Rightarrow>
          Some (trim (svgTemplate finalWidth finalHeight (concat cs))))))"

section \<open>Closed form of the loops\<close>

text \<open>
  Auxiliary functions for the proofs: the dot, if any, that the loop body pushes for one
  cell, the dots of one row, and the dots of the whole grid in the order of the loops. The
  lemmas of the next part show that the loops compute them.
\<close>

definition cellDot :: "PlateConfig \<Rightarrow> pixels \<Rightarrow> int \<Rightarrow> int \<Rightarrow> Dot option" where
  "cellDot config data y x =
     (case luminance data ((y * cols config + x) * 4) of
        None \<Rightarrow> None
      | Some lum \<Rightarrow>
          if radius config (lum / 255) > 0.1
          then Some \<lparr>dot_x = physX config x, dot_y = physY config y, dot_r = radius config (lum / 255)\<rparr>
          else None)"

definition rowDots :: "PlateConfig \<Rightarrow> pixels \<Rightarrow> int \<Rightarrow> Dot list" where
  "rowDots config data y = List.map_filter (cellDot config data y) [0 .. cols config - 1]"

definition gridDots :: "PlateConfig \<Rightarrow> pixels \<Rightarrow> Dot list" where
  "gridDots config data = concat (map (rowDots config data) [0 .. rows config - 1])"

section \<open>Row-major order\<close>

text \<open>
  The order of the loops on two dots: the first is in an earlier row, or in the same row
  and not to the right of the second.
\<close>

definition rowMajor :: "Dot \<Rightarrow> Dot \<Rightarrow> bool" where
  "rowMajor a b \<longleftrightarrow> dot_y a \<le> dot_y b \<and> (dot_y a = dot_y b \<longrightarrow> dot_x a \<le> dot_x b)"

section \<open>Invariants of the component\<close>





section \<open>Example inputs\<close>


text \<open>A plate of two by two cells and a picture that is black everywhere.\<close>

definition plate20 :: PlateConfig where
  "plate20 = \<lparr>width = 20, height = 20, spacing = 10, minHoleSize = 1, maxHoleSize = 6,
     margin = 0, inverted = False, threshold = 128, shape = Circle\<rparr>"

definition blackImage :: image where
  "blackImage c r i = (if i mod 4 = 3 then 255 else 0)"

definition plate20_dots :: "Dot list" where
  "plate20_dots =
     [\<lparr>dot_x = 5, dot_y = 5, dot_r = 3\<rparr>, \<lparr>dot_x = 15, dot_y = 5, dot_r = 3\<rparr>,
      \<lparr>dot_x = 5, dot_y = 15, dot_r = 3\<rparr>, \<lparr>dot_x = 15, dot_y = 15, dot_r = 3\<rparr>]"

text \<open>
  A plate of two cells in one row with \<open>minHoleSize = 0\<close>, and a picture whose first pixel
  is black and whose other pixels are white.
\<close>

definition plateCut :: PlateConfig where
  "plateCut = \<lparr>width = 20, height = 10, spacing = 10, minHoleSize = 0, maxHoleSize = 6,
     margin = 0, inverted = False, threshold = 128, shape = Circle\<rparr>"

definition halfImage :: image where
  "halfImage c r i = (if i < 4 then 0 else 255)"

text \<open>
  The end-to-end scenario of the specification: a plate of ten by ten cells, the hundred
  dots expected for it, and a picture whose pixels all have the colour (1, 173, 225), of
  luminance 127.5.
\<close>

definition plateE2E :: PlateConfig where
  "plateE2E = \<lparr>width = 100, height = 100, spacing = 10, minHoleSize = 1, maxHoleSize = 6,
     margin = 0, inverted = False, threshold = 128, shape = Circle\<rparr>"

definition e2eDots :: "Dot list" where
  "e2eDots = concat (map (\<lambda>y. map (\<lambda>x. \<lparr>dot_x = 5 + 10 * of_int x, dot_y = 5 + 10 * of_int y,
                dot_r = 1.75\<rparr>) [0 .. 9]) [0 .. 9])"

definition grayImage :: image where
  "grayImage c r i = (if i mod 4 = 0 then 1 else if i mod 4 = 1 then 173
                      else if i mod 4 = 2 then 225 else 255)"

text \<open>The degenerate plate of the specification: the margins cover the plate.\<close>

definition plateP4 :: PlateConfig where
  "plateP4 = \<lparr>width = 500, height = 500, spacing = 8, minHoleSize = 1, maxHoleSize = 6,
     margin = 300, inverted = False, threshold = 128, shape = Circle\<rparr>"

text \<open>
  An export of one dot: on the plate of two by two cells, and on a plate whose sides are
  not whole numbers of millimetres, each with its document.
\<close>

definition oneDot :: "Dot list" where
  "oneDot = [\<lparr>dot_x = 5, dot_y = 15, dot_r = 1.75\<rparr>]"

definition plate20_svg :: string where
  "plate20_svg =
     ''<svg \<newline>'' @
     ''    xmlns=\"http://www.w3.org/2000/svg\" \<newline>'' @
     ''    width=\"20mm\" \<newline>'' @
     ''    height=\"20mm\" \<newline>'' @
     ''    viewBox=\"0 0 20 20\"\<newline>'' @
     ''>\<newline>'' @
     ''    <!-- Created with PerfoMate -->\<newline>'' @
     ''    <rect x=\"0\" y=\"0\" width=\"20\" height=\"20\" fill=\"none\" stroke=\"black\" stroke-width=\"0.5\" />\<newline>'' @
     ''    <g fill=\"black\">\<newline>'' @
     ''        <circle cx=\"5.00\" cy=\"15.00\" r=\"1.75\" />\<newline>'' @
     ''    </g>\<newline>'' @
     ''</svg>''"

definition plateFraction :: PlateConfig where
  "plateFraction = \<lparr>width = 20.5, height = 20.25, spacing = 10, minHoleSize = 1, maxHoleSize = 6,
     margin = 0, inverted = False, threshold = 128, shape = Circle\<rparr>"

definition plateFraction_svg :: string where
  "plateFraction_svg =
     ''<svg \<newline>'' @
     ''    xmlns=\"http://www.w3.org/2000/svg\" \<newline>'' @
     ''    width=\"20.5mm\" \<newline>'' @
     ''    height=\"20.25mm\" \<newline>'' @
     ''    viewBox=\"0 0 20.5 20.25\"\<newline>'' @
     ''>\<newline>'' @
     ''    <!-- Created with PerfoMate -->\<newline>'' @
     ''    <rect x=\"0\" y=\"0\" width=\"20.5\" height=\"20.25\" fill=\"none\" stroke=\"black\" stroke-width=\"0.5\" />\<newline>'' @
     ''    <g fill=\"black\">\<newline>'' @
     ''        <circle cx=\"5.00\" cy=\"15.00\" r=\"1.75\" />\<newline>'' @
     ''    </g>\<newline>'' @
     ''</svg>''"




section \<open>Properties of the radius mapping\<close>

lemma radius_unfold:
  "radius config s =
     minHoleSize config / 2 +
     (1 - (if inverted config then 1 - s else s)) * ((maxHoleSize config - minHoleSize config) / 2)"
  by (simp add: radius_def minRad_def radiusRange_def Let_def)

lemma radius_lower:
  assumes "0 \<le> s" and "s \<le> 1" and "minHoleSize config \<le> maxHoleSize config"
  shows "minHoleSize config / 2 \<le> radius config s"
proof -
  define t where "t = 1 - (if inverted config then 1 - s else s)"
  define d where "d = (maxHoleSize config - minHoleSize config) / 2"
  have "0 \<le> t" using assms(1,2) by (auto simp: t_def)
  moreover have "0 \<le> d" using assms(3) by (simp add: d_def)
  ultimately have "0 \<le> t * d" by simp
  moreover have "radius config s = minHoleSize config / 2 + t * d"
    by (simp add: radius_unfold t_def d_def)
  ultimately show ?thesis by linarith
qed




text \<open>
  Claim C5. With every other field equal, the radius for sample \<open>s\<close> under
  \<open>inverted = true\<close> is the radius for sample \<open>1 - s\<close> under \<open>inverted = false\<close>.
\<close>

theorem radius_inversion_symmetry:
  "radius (config\<lparr>inverted := True\<rparr>) s = radius (config\<lparr>inverted := False\<rparr>) (1 - s)"
  by (simp add: radius_def minRad_def radiusRange_def Let_def)

section \<open>The loops compute the closed form\<close>

lemma cell_eq:
  "cell config data y x newDots =
     newDots @ (case cellDot config data y x of None \<Rightarrow> [] | Some d \<Rightarrow> [d])"
  by (simp add: cell_def cellDot_def Let_def split: option.splits)

lemma forCols_eq:
  "forCols config data y x newDots =
     newDots @ List.map_filter (cellDot config data y) [x .. cols config - 1]"
proof (induction config data y x newDots rule: forCols.induct)
  case (1 config data y x newDots)
  show ?case
  proof (cases "x < cols config")
    case True
    then have u: "[x .. cols config - 1] = x # [x + 1 .. cols config - 1]"
      by (simp add: upto_rec1)
    show ?thesis
      using True "1.IH" [OF True]
      by (subst forCols.simps) (simp add: u cell_eq List.map_filter_simps split: option.splits)
  next
    case False
    then show ?thesis
      by (subst forCols.simps) (simp add: List.map_filter_simps)
  qed
qed

lemma forCols_rowDots: "forCols config data y 0 newDots = newDots @ rowDots config data y"
  by (simp add: forCols_eq rowDots_def)

lemma whileRows_Complete:
  "whileRows config data k y newDots = Complete ds \<Longrightarrow>
     ds = newDots @ concat (map (rowDots config data) [y .. rows config - 1])"
proof (induction config data k y newDots rule: whileRows.induct)
  case (1 config data k y newDots)
  show ?case
  proof (cases "y < rows config")
    case True
    then have u: "[y .. rows config - 1] = y # [y + 1 .. rows config - 1]"
      by (simp add: upto_rec1)
    from True "1.prems" have k: "k \<noteq> 0"
      by (subst (asm) whileRows.simps) (auto split: if_splits)
    from True k "1.prems"
    have "whileRows config data (k - 1) (y + 1) (forCols config data y 0 newDots) = Complete ds"
      by (subst (asm) whileRows.simps) simp
    from "1.IH" [OF True k this] show ?thesis
      by (simp add: u forCols_rowDots)
  next
    case False
    with "1.prems" show ?thesis
      by (subst (asm) whileRows.simps) simp
  qed
qed

lemma whileRows_Yield:
  "whileRows config data k y newDots = Yield y' ds \<Longrightarrow>
     y \<le> y' \<and> y' < rows config \<and> ds = newDots @ concat (map (rowDots config data) [y .. y' - 1])"
proof (induction config data k y newDots rule: whileRows.induct)
  case (1 config data k y newDots)
  show ?case
  proof (cases "y < rows config")
    case True
    show ?thesis
    proof (cases "k = 0")
      case True
      with \<open>y < rows config\<close> "1.prems" show ?thesis
        by (subst (asm) whileRows.simps) simp
    next
      case False
      from True False "1.prems"
      have "whileRows config data (k - 1) (y + 1) (forCols config data y 0 newDots) = Yield y' ds"
        by (subst (asm) whileRows.simps) simp
      from "1.IH" [OF True False this]
      have ih: "y + 1 \<le> y'" "y' < rows config"
        "ds = forCols config data y 0 newDots @ concat (map (rowDots config data) [y + 1 .. y' - 1])"
        by auto
      from ih(1) have u: "[y .. y' - 1] = y # [y + 1 .. y' - 1]"
        by (simp add: upto_rec1)
      from ih show ?thesis by (simp add: u forCols_rowDots)
    qed
  next
    case False
    with "1.prems" show ?thesis
      by (subst (asm) whileRows.simps) simp
  qed
qed


lemma runChunks_Published:
  "runChunks config data ks y newDots = Published ds \<Longrightarrow> y \<le> rows config \<Longrightarrow>
     ds = newDots @ concat (map (rowDots config data) [y .. rows config - 1])"
proof (induction ks arbitrary: y newDots)
  case Nil
  then show ?case by simp
next
  case (Cons k ks)
  show ?case
  proof (cases "whileRows config data k y newDots")
    case (Yield y' nd)
    from whileRows_Yield [OF Yield]
    have y: "y \<le> y'" "y' < rows config"
      and nd: "nd = newDots @ concat (map (rowDots config data) [y .. y' - 1])"
      by auto
    from Cons.prems(1) Yield have "runChunks config data ks y' nd = Published ds" by simp
    from Cons.IH [OF this] y(2)
    have ds: "ds = nd @ concat (map (rowDots config data) [y' .. rows config - 1])" by simp
    from y have "[y .. rows config - 1] = [y .. y' - 1] @ [y' .. rows config - 1]"
      by (intro upto_split1) auto
    with ds nd show ?thesis by simp
  next
    case (Complete nd)
    with Cons.prems(1) have "nd = ds" by simp
    with whileRows_Complete [OF Complete] show ?thesis by simp
  qed
qed

lemma whileRows_Yield_row:
  "whileRows config data k y newDots = Yield y' ds \<Longrightarrow> y' = y + int k"
proof (induction config data k y newDots rule: whileRows.induct)
  case (1 config data k y newDots)
  show ?case
  proof (cases "y < rows config \<and> k \<noteq> 0")
    case True
    with "1.prems"
    have "whileRows config data (k - 1) (y + 1) (forCols config data y 0 newDots) = Yield y' ds"
      by (subst (asm) whileRows.simps) simp
    from "1.IH" [OF _ _ this] True show ?thesis by simp
  next
    case False
    with "1.prems" show ?thesis
      by (subst (asm) whileRows.simps) (auto split: if_splits)
  qed
qed

lemma runChunks_completes:
  "ks \<noteq> [] \<Longrightarrow> rows config - y \<le> int (sum_list ks) \<Longrightarrow>
     \<exists>ds. runChunks config data ks y newDots = Published ds"
proof (induction ks arbitrary: y newDots)
  case Nil
  then show ?case by simp
next
  case (Cons k ks)
  show ?case
  proof (cases "whileRows config data k y newDots")
    case (Yield y' nd)
    from whileRows_Yield [OF Yield] whileRows_Yield_row [OF Yield]
    have y: "y' < rows config" "y' = y + int k" by auto
    with Cons.prems(2) have "ks \<noteq> []" "rows config - y' \<le> int (sum_list ks)" by auto
    from Cons.IH [OF this] Yield show ?thesis by simp
  next
    case (Complete nd)
    then show ?thesis by simp
  qed
qed

lemma generationRun_Published:
  "generationRun config img ks = Published ds \<Longrightarrow>
     ds = (if effW config \<le> 0 \<or> effH config \<le> 0 then []
           else gridDots config (getImageData img (cols config) (rows config)))"
proof (cases "effW config \<le> 0 \<or> effH config \<le> 0")
  case True
  assume "generationRun config img ks = Published ds"
  with True show ?thesis by (simp add: generationRun_def)
next
  case False
  assume p: "generationRun config img ks = Published ds"
  with False have s: "\<not> getImageDataThrows config"
    by (auto simp: generationRun_def split: if_splits)
  let ?data = "getImageData img (cols config) (rows config)"
  from p False s have r: "runChunks config ?data ks 0 [] = Published ds"
    by (simp add: generationRun_def)
  show ?thesis
  proof (cases "0 \<le> rows config")
    case True
    from runChunks_Published [OF r True] False show ?thesis by (simp add: gridDots_def)
  next
    case neg: False
    have "ds = []"
    proof (cases ks)
      case Nil
      with r show ?thesis by simp
    next
      case (Cons k ks')
      from neg have "whileRows config ?data k 0 [] = Complete []"
        by (subst whileRows.simps) simp
      with r Cons show ?thesis by simp
    qed
    moreover from neg have "[0 .. rows config - 1] = []" by simp
    ultimately show ?thesis using False by (simp add: gridDots_def)
  qed
qed

lemma generationRun_completes:
  assumes "\<not> getImageDataThrows config" and "ks \<noteq> []" and "rows config \<le> int (sum_list ks)"
  shows "\<exists>ds. generationRun config img ks = Published ds"
  using assms runChunks_completes [of ks config 0]
  by (simp add: generationRun_def)

lemma set_rowDots:
  "set (rowDots config data y) = {d. \<exists>x. 0 \<le> x \<and> x < cols config \<and> cellDot config data y x = Some d}"
  by (auto simp: rowDots_def List.map_filter_def) force

lemma set_gridDots:
  "set (gridDots config data) =
     {d. \<exists>y x. 0 \<le> y \<and> y < rows config \<and> 0 \<le> x \<and> x < cols config \<and> cellDot config data y x = Some d}"
  by (auto simp: gridDots_def set_rowDots) force

lemma cellDot_Some:
  "cellDot config data y x = Some d \<Longrightarrow>
     dot_x d = physX config x \<and> dot_y d = physY config y \<and> 0.1 < dot_r d"
  by (auto simp: cellDot_def split: option.splits if_splits)

section \<open>Geometry of the grid\<close>

lemma grid_column:
  assumes "0 \<le> x" and "x < cols config"
  shows "0 < spacing config \<and> (of_int x + 1) * spacing config \<le> effW config \<and> 0 < effW config"
proof -
  have e: "0 \<le> effW config" by (simp add: effW_def)
  from assms have "1 \<le> cols config" by simp
  then have "1 \<le> effW config / spacing config"
    unfolding cols_def by (simp add: le_floor_iff)
  then have q: "0 < effW config / spacing config" by linarith
  have s: "0 < spacing config"
  proof (rule ccontr)
    assume "\<not> 0 < spacing config"
    then have "spacing config \<le> 0" by simp
    with e have "effW config / spacing config \<le> 0" by (simp add: divide_nonneg_nonpos)
    with q show False by simp
  qed
  from assms(2) have "x + 1 \<le> cols config" by simp
  then have "of_int (x + 1) \<le> effW config / spacing config"
    unfolding cols_def by (simp only: le_floor_iff)
  with s have "of_int (x + 1) * spacing config \<le> effW config"
    by (simp add: pos_le_divide_eq)
  moreover from q s have "0 < effW config" by (simp add: zero_less_divide_iff)
  ultimately show ?thesis using s by simp
qed

lemma grid_row:
  assumes "0 \<le> y" and "y < rows config"
  shows "0 < spacing config \<and> (of_int y + 1) * spacing config \<le> effH config \<and> 0 < effH config"
proof -
  have e: "0 \<le> effH config" by (simp add: effH_def)
  from assms have "1 \<le> rows config" by simp
  then have "1 \<le> effH config / spacing config"
    unfolding rows_def by (simp add: le_floor_iff)
  then have q: "0 < effH config / spacing config" by linarith
  have s: "0 < spacing config"
  proof (rule ccontr)
    assume "\<not> 0 < spacing config"
    then have "spacing config \<le> 0" by simp
    with e have "effH config / spacing config \<le> 0" by (simp add: divide_nonneg_nonpos)
    with q show False by simp
  qed
  from assms(2) have "y + 1 \<le> rows config" by simp
  then have "of_int (y + 1) \<le> effH config / spacing config"
    unfolding rows_def by (simp only: le_floor_iff)
  with s have "of_int (y + 1) * spacing config \<le> effH config"
    by (simp add: pos_le_divide_eq)
  moreover from q s have "0 < effH config" by (simp add: zero_less_divide_iff)
  ultimately show ?thesis using s by simp
qed

lemma physX_inside:
  assumes "0 \<le> x" and "x < cols config"
  shows "margin config < physX config x \<and> physX config x < width config - margin config"
proof -
  from grid_column [OF assms]
  have s: "0 < spacing config" and le: "(of_int x + 1) * spacing config \<le> effW config"
    and e: "0 < effW config" by auto
  from e have w: "effW config = width config - margin config * 2"
    by (simp add: effW_def max_def split: if_splits)
  from assms(1) s have "0 \<le> of_int x * spacing config" by simp
  with s have lo: "margin config < physX config x" by (simp add: physX_def add_pos_nonneg)
  have "physX config x < margin config + (of_int x + 1) * spacing config"
    using s by (simp add: physX_def algebra_simps)
  with le w have "physX config x < width config - margin config" by linarith
  with lo show ?thesis by simp
qed

lemma physY_inside:
  assumes "0 \<le> y" and "y < rows config"
  shows "margin config < physY config y \<and> physY config y < height config - margin config"
proof -
  from grid_row [OF assms]
  have s: "0 < spacing config" and le: "(of_int y + 1) * spacing config \<le> effH config"
    and e: "0 < effH config" by auto
  from e have w: "effH config = height config - margin config * 2"
    by (simp add: effH_def max_def split: if_splits)
  from assms(1) s have "0 \<le> of_int y * spacing config" by simp
  with s have lo: "margin config < physY config y" by (simp add: physY_def add_pos_nonneg)
  have "physY config y < margin config + (of_int y + 1) * spacing config"
    using s by (simp add: physY_def algebra_simps)
  with le w have "physY config y < height config - margin config" by linarith
  with lo show ?thesis by simp
qed

lemma Published_cases:
  assumes "generationRun config img ks = Published ds" and "d \<in> set ds"
  obtains y x where "0 \<le> y" "y < rows config" "0 \<le> x" "x < cols config"
    "cellDot config (getImageData img (cols config) (rows config)) y x = Some d"
proof -
  from generationRun_Published [OF assms(1)] assms(2)
  have "d \<in> set (gridDots config (getImageData img (cols config) (rows config)))"
    by (auto split: if_splits)
  then show thesis using that by (auto simp: set_gridDots)
qed

section \<open>Order of the dots\<close>

lemma sorted_wrt_map_filter:
  assumes "sorted_wrt (<) xs"
    and "\<And>x x' a b. x \<in> set xs \<Longrightarrow> x' \<in> set xs \<Longrightarrow> x < x' \<Longrightarrow> f x = Some a \<Longrightarrow> f x' = Some b \<Longrightarrow> R a b"
  shows "sorted_wrt R (List.map_filter f xs)"
  using assms
proof (induction xs)
  case Nil
  then show ?case by (simp add: List.map_filter_simps)
next
  case (Cons x xs)
  have ih: "sorted_wrt R (List.map_filter f xs)"
  proof (rule Cons.IH)
    show "sorted_wrt (<) xs" using Cons.prems(1) by simp
    show "R a b" if "z \<in> set xs" "z' \<in> set xs" "z < z'" "f z = Some a" "f z' = Some b"
      for z z' a b using that Cons.prems(2) [of z z' a b] by simp
  qed
  show ?case
  proof (cases "f x")
    case None
    with ih show ?thesis by (simp add: List.map_filter_simps)
  next
    case (Some a)
    have "\<forall>b \<in> set (List.map_filter f xs). R a b"
    proof
      fix b assume "b \<in> set (List.map_filter f xs)"
      then obtain x' where "x' \<in> set xs" "f x' = Some b"
        by (auto simp: List.map_filter_def)
      moreover from this Cons.prems(1) have "x < x'" by auto
      ultimately show "R a b" using Some Cons.prems(2) [of x x' a b] by simp
    qed
    with ih Some show ?thesis by (simp add: List.map_filter_simps)
  qed
qed

lemma sorted_wrt_concat_map:
  assumes "sorted_wrt (<) ys"
    and "\<And>y. y \<in> set ys \<Longrightarrow> sorted_wrt R (f y)"
    and "\<And>y y' a b. y \<in> set ys \<Longrightarrow> y' \<in> set ys \<Longrightarrow> y < y' \<Longrightarrow> a \<in> set (f y) \<Longrightarrow> b \<in> set (f y') \<Longrightarrow> R a b"
  shows "sorted_wrt R (concat (map f ys))"
  using assms
proof (induction ys)
  case Nil
  then show ?case by simp
next
  case (Cons y ys)
  have ih: "sorted_wrt R (concat (map f ys))"
  proof (rule Cons.IH)
    show "sorted_wrt (<) ys" using Cons.prems(1) by simp
    show "sorted_wrt R (f z)" if "z \<in> set ys" for z using that Cons.prems(2) [of z] by simp
    show "R a b" if "z \<in> set ys" "z' \<in> set ys" "z < z'" "a \<in> set (f z)" "b \<in> set (f z')"
      for z z' a b using that Cons.prems(3) [of z z' a b] by simp
  qed
  have "\<forall>a \<in> set (f y). \<forall>b \<in> set (concat (map f ys)). R a b"
  proof (intro ballI)
    fix a b assume a: "a \<in> set (f y)" and "b \<in> set (concat (map f ys))"
    then obtain y' where y': "y' \<in> set ys" "b \<in> set (f y')" by auto
    with Cons.prems(1) have "y < y'" by auto
    with a y' show "R a b" using Cons.prems(3) [of y y' a b] by simp
  qed
  with ih Cons.prems(2) [of y] show ?case by (simp add: sorted_wrt_append)
qed

lemma strict_sorted_upto: "sorted_wrt (<) [i .. j :: int]"
  by (simp add: strict_sorted_iff)

lemma physX_mono: "0 < spacing config \<Longrightarrow> x < x' \<Longrightarrow> physX config x < physX config x'"
  by (simp add: physX_def)

lemma physY_mono: "0 < spacing config \<Longrightarrow> y < y' \<Longrightarrow> physY config y < physY config y'"
  by (simp add: physY_def)

lemma rowMajor_rowDots: "sorted_wrt rowMajor (rowDots config data y)"
  unfolding rowDots_def
proof (rule sorted_wrt_map_filter [OF strict_sorted_upto])
  fix x x' a b
  assume x: "x \<in> set [0 .. cols config - 1]" "x' \<in> set [0 .. cols config - 1]" "x < x'"
    and a: "cellDot config data y x = Some a" and b: "cellDot config data y x' = Some b"
  from x have "0 \<le> x" "x < cols config" by auto
  from grid_column [OF this] have "0 < spacing config" by simp
  from physX_mono [OF this x(3)] cellDot_Some [OF a] cellDot_Some [OF b]
  show "rowMajor a b" by (simp add: rowMajor_def)
qed

lemma rowMajor_gridDots: "sorted_wrt rowMajor (gridDots config data)"
  unfolding gridDots_def
proof (rule sorted_wrt_concat_map [OF strict_sorted_upto])
  fix y assume "y \<in> set [0 .. rows config - 1]"
  show "sorted_wrt rowMajor (rowDots config data y)" by (rule rowMajor_rowDots)
next
  fix y y' a b
  assume y: "y \<in> set [0 .. rows config - 1]" "y' \<in> set [0 .. rows config - 1]" "y < y'"
    and a: "a \<in> set (rowDots config data y)" and b: "b \<in> set (rowDots config data y')"
  from y have "0 \<le> y" "y < rows config" by auto
  from grid_row [OF this] have "0 < spacing config" by simp
  from physY_mono [OF this y(3)] a b
  show "rowMajor a b" by (auto simp: rowMajor_def set_rowDots dest!: cellDot_Some)
qed

section \<open>The pixel buffer covers the grid\<close>

lemma idx_in_range:
  fixes x y c r :: int
  assumes "0 \<le> x" "x < c" "0 \<le> y" "y < r"
  shows "0 \<le> (y * c + x) * 4 \<and> (y * c + x) * 4 + 3 < 4 * c * r"
proof -
  from assms have c: "0 \<le> c" by simp
  from assms(4) have "y \<le> r - 1" by simp
  from mult_right_mono [OF this c] have "y * c \<le> r * c - c" by (simp add: algebra_simps)
  with assms(2) have "y * c + x < r * c" by linarith
  then have "(y * c + x) * 4 + 3 < 4 * (r * c)" by presburger
  moreover from assms(1,3) c have "0 \<le> y * c + x" by simp
  ultimately show ?thesis by (simp add: algebra_simps)
qed

lemma data_at_getImageData:
  assumes "0 \<le> i" and "i < 4 * c * r" and "0 \<le> c" and "0 \<le> r"
  shows "data_at (getImageData img c r) i = Some (real (unat (img (nat c) (nat r) (nat i))))"
proof -
  have "int (4 * nat c * nat r) = 4 * c * r" using assms(3,4) by simp
  with assms(1,2) have "nat i < 4 * nat c * nat r" by linarith
  then show ?thesis
    using assms by (simp add: data_at_def getImageData_def)
qed

lemma byte_range: "0 \<le> real (unat (w :: 8 word)) \<and> real (unat w) \<le> 255"
proof -
  have "unat w < 2 ^ 8" using unsigned_less [of w] by simp
  then have "unat w \<le> 255" by simp
  then have "real (unat w) \<le> real 255" by (simp only: of_nat_le_iff)
  moreover have "0 \<le> real (unat w)" by (rule of_nat_0_le_iff)
  ultimately show ?thesis by simp
qed

lemma luminance_in_grid:
  assumes "0 \<le> x" "x < c" "0 \<le> y" "y < r"
  shows "\<exists>lum. luminance (getImageData img c r) ((y * c + x) * 4) = Some lum \<and> 0 \<le> lum \<and> lum \<le> 255"
proof -
  let ?i = "(y * c + x) * 4"
  from assms have c: "0 \<le> c" and r: "0 \<le> r" by simp_all
  from idx_in_range [OF assms] have i: "0 \<le> ?i" "?i + 3 < 4 * c * r" by simp_all
  have a0: "data_at (getImageData img c r) ?i = Some (real (unat (img (nat c) (nat r) (nat ?i))))"
    using i by (intro data_at_getImageData c r) simp_all
  have a1: "data_at (getImageData img c r) (?i + 1) = Some (real (unat (img (nat c) (nat r) (nat (?i + 1)))))"
    using i by (intro data_at_getImageData c r) simp_all
  have a2: "data_at (getImageData img c r) (?i + 2) = Some (real (unat (img (nat c) (nat r) (nat (?i + 2)))))"
    using i by (intro data_at_getImageData c r) simp_all
  define R where "R = real (unat (img (nat c) (nat r) (nat ?i)))"
  define G where "G = real (unat (img (nat c) (nat r) (nat (?i + 1))))"
  define B where "B = real (unat (img (nat c) (nat r) (nat (?i + 2))))"
  have l: "luminance (getImageData img c r) ?i = Some (0.299 * R + 0.587 * G + 0.114 * B)"
    unfolding luminance_def a0 a1 a2 R_def G_def B_def by simp
  have "0 \<le> R" "R \<le> 255" "0 \<le> G" "G \<le> 255" "0 \<le> B" "B \<le> 255"
    unfolding R_def G_def B_def using byte_range by blast+
  then have "0 \<le> 0.299 * R + 0.587 * G + 0.114 * B" "0.299 * R + 0.587 * G + 0.114 * B \<le> 255"
    by simp_all
  with l show ?thesis by blast
qed

lemma cellDot_physX_inj:
  assumes "0 < spacing config" and "physX config x = physX config x'"
  shows "x = x'"
  using assms by (simp add: physX_def)

lemma cellDot_physY_inj:
  assumes "0 < spacing config" and "physY config y = physY config y'"
  shows "y = y'"
  using assms by (simp add: physY_def)

section \<open>Counting the dots\<close>

lemma length_map_filter_le: "length (List.map_filter f xs) \<le> length xs"
  by (simp add: List.map_filter_def)

lemma length_map_filter_all:
  "(\<And>x. x \<in> set xs \<Longrightarrow> f x \<noteq> None) \<Longrightarrow> length (List.map_filter f xs) = length xs"
  by (induction xs) (auto simp: List.map_filter_simps split: option.splits)

lemma length_concat_le:
  "(\<And>y. y \<in> set ys \<Longrightarrow> length (f y) \<le> n) \<Longrightarrow> length (concat (map f ys)) \<le> length ys * n"
proof (induction ys)
  case Nil
  then show ?case by simp
next
  case (Cons y ys)
  from Cons.prems [of y] have "length (f y) \<le> n" by simp
  moreover have "length (concat (map f ys)) \<le> length ys * n"
    using Cons.prems by (intro Cons.IH) simp
  ultimately show ?case by simp
qed

lemma length_concat_eq:
  "(\<And>y. y \<in> set ys \<Longrightarrow> length (f y) = n) \<Longrightarrow> length (concat (map f ys)) = length ys * n"
proof (induction ys)
  case Nil
  then show ?case by simp
next
  case (Cons y ys)
  from Cons.prems [of y] have "length (f y) = n" by simp
  moreover have "length (concat (map f ys)) = length ys * n"
    using Cons.prems by (intro Cons.IH) simp
  ultimately show ?case by simp
qed

lemma length_rowDots_le: "length (rowDots config data y) \<le> nat (cols config)"
  using length_map_filter_le [of "cellDot config data y" "[0 .. cols config - 1]"]
  by (simp add: rowDots_def)

lemma length_gridDots_le: "length (gridDots config data) \<le> nat (rows config) * nat (cols config)"
  using length_concat_le [of "[0 .. rows config - 1]" "rowDots config data" "nat (cols config)"]
    length_rowDots_le
  by (simp add: gridDots_def)

lemma cellDot_defined:
  assumes "0 \<le> x" "x < cols config" "0 \<le> y" "y < rows config"
    and "0.2 < minHoleSize config" and "minHoleSize config \<le> maxHoleSize config"
  shows "cellDot config (getImageData img (cols config) (rows config)) y x \<noteq> None"
proof -
  from luminance_in_grid [OF assms(1-4)] obtain lum
    where l: "luminance (getImageData img (cols config) (rows config)) ((y * cols config + x) * 4) = Some lum"
      and r: "0 \<le> lum" "lum \<le> 255" by blast
  from r have "0 \<le> lum / 255" "lum / 255 \<le> 1" by simp_all
  from radius_lower [OF this assms(6)] assms(5) have "0.1 < radius config (lum / 255)" by simp
  with l show ?thesis by (simp add: cellDot_def)
qed

lemma length_gridDots_eq:
  assumes "0 \<le> cols config" "0 \<le> rows config"
    and "0.2 < minHoleSize config" and "minHoleSize config \<le> maxHoleSize config"
  shows "length (gridDots config (getImageData img (cols config) (rows config)))
         = nat (rows config) * nat (cols config)"
proof -
  let ?data = "getImageData img (cols config) (rows config)"
  have "length (rowDots config ?data y) = nat (cols config)" if "y \<in> set [0 .. rows config - 1]" for y
  proof -
    from that have y: "0 \<le> y" "y < rows config" by auto
    have "length (List.map_filter (cellDot config ?data y) [0 .. cols config - 1])
          = length [0 .. cols config - 1]"
    proof (rule length_map_filter_all)
      fix x assume "x \<in> set [0 .. cols config - 1]"
      then have "0 \<le> x" "x < cols config" by auto
      from cellDot_defined [OF this y assms(3,4)]
      show "cellDot config ?data y x \<noteq> None" .
    qed
    then show ?thesis by (simp add: rowDots_def)
  qed
  from length_concat_eq [of "[0 .. rows config - 1]" "rowDots config ?data" "nat (cols config)", OF this]
  show ?thesis by (simp add: gridDots_def)
qed

lemma cols_sign:
  assumes "0 < effW config"
  shows "(0 < spacing config \<longrightarrow> 0 \<le> cols config) \<and> (spacing config < 0 \<longrightarrow> cols config < 0)"
proof (intro conjI impI)
  assume "0 < spacing config"
  with assms have "0 \<le> effW config / spacing config" by simp
  then show "0 \<le> cols config" by (simp add: cols_def)
next
  assume "spacing config < 0"
  with assms have "effW config / spacing config < 0" by (simp add: divide_pos_neg)
  then show "cols config < 0" by (simp add: cols_def floor_less_iff)
qed

lemma rows_sign:
  assumes "0 < effH config"
  shows "(0 < spacing config \<longrightarrow> 0 \<le> rows config) \<and> (spacing config < 0 \<longrightarrow> rows config < 0)"
proof (intro conjI impI)
  assume "0 < spacing config"
  with assms have "0 \<le> effH config / spacing config" by simp
  then show "0 \<le> rows config" by (simp add: rows_def)
next
  assume "spacing config < 0"
  with assms have "effH config / spacing config < 0" by (simp add: divide_pos_neg)
  then show "rows config < 0" by (simp add: rows_def floor_less_iff)
qed

lemma degenerate_grid:
  assumes "effW config \<le> 0 \<or> effH config \<le> 0"
  shows "cols config * rows config = 0"
proof -
  have "0 \<le> effW config" "0 \<le> effH config" by (simp_all add: effW_def effH_def)
  with assms have "effW config = 0 \<or> effH config = 0" by linarith
  then show ?thesis by (auto simp: cols_def rows_def)
qed

section \<open>The mid-gray scenario\<close>

lemma map_filter_Some:
  "(\<And>x. x \<in> set xs \<Longrightarrow> f x = Some (g x)) \<Longrightarrow> List.map_filter f xs = map g xs"
  by (induction xs) (simp_all add: List.map_filter_simps)

lemma plateE2E_grid: "cols plateE2E = 10" "rows plateE2E = 10"
  by (simp_all add: cols_def rows_def effW_def effH_def plateE2E_def)

lemma plateE2E_radius: "radius plateE2E 0.5 = 1.75"
  by (simp add: radius_unfold plateE2E_def)

lemma plateE2E_gridDots:
  assumes "\<forall>y x. 0 \<le> y \<and> y < 10 \<and> 0 \<le> x \<and> x < 10 \<longrightarrow>
             (\<exists>lum. luminance (getImageData img 10 10) ((y * 10 + x) * 4) = Some lum \<and> lum / 255 = 0.5)"
  shows "gridDots plateE2E (getImageData img 10 10) = e2eDots"
proof -
  let ?data = "getImageData img 10 10"
  let ?g = "\<lambda>y x. \<lparr>dot_x = 5 + 10 * of_int x, dot_y = 5 + 10 * of_int y, dot_r = 1.75\<rparr>"
  have c: "cellDot plateE2E ?data y x = Some (?g y x)"
    if "y \<in> set [0 .. 9]" "x \<in> set [0 .. 9]" for y x :: int
  proof -
    from that have "0 \<le> y \<and> y < 10 \<and> 0 \<le> x \<and> x < 10" by auto
    with assms obtain lum where l: "luminance ?data ((y * 10 + x) * 4) = Some lum" "lum / 255 = 0.5"
      by blast
    have p: "physX plateE2E x = 5 + 10 * of_int x" "physY plateE2E y = 5 + 10 * of_int y"
      by (simp_all add: physX_def physY_def plateE2E_def)
    have rd: "radius plateE2E (lum / 255) = 1.75"
      unfolding l(2) by (rule plateE2E_radius)
    show ?thesis
      using l(1) by (simp add: cellDot_def plateE2E_grid rd p)
  qed
  have r: "rowDots plateE2E ?data y = map (?g y) [0 .. 9]" if "y \<in> set [0 .. 9]" for y
    unfolding rowDots_def plateE2E_grid
    using map_filter_Some [of "[0 .. 9]" "cellDot plateE2E ?data y" "?g y"] c [OF that]
    by simp
  have m: "map (rowDots plateE2E ?data) [0 .. 9] = map (\<lambda>y. map (?g y) [0 .. 9]) [0 .. 9]"
    by (rule map_cong [OF refl]) (rule r)
  have u: "[0 .. rows plateE2E - 1] = [0 .. 9]" by (simp add: plateE2E_grid)
  show ?thesis unfolding gridDots_def e2eDots_def u m by (rule refl)
qed

lemma e2eDots_length: "length e2eDots = 100"
  using length_concat_eq [of "[0 .. 9]"
      "\<lambda>y. map (\<lambda>x. \<lparr>dot_x = 5 + 10 * of_int x, dot_y = 5 + 10 * of_int y, dot_r = 1.75\<rparr>) [0 .. 9]" 10]
  by (simp add: e2eDots_def)

lemma e2eDots_radius: "d \<in> set e2eDots \<Longrightarrow> dot_r d = 1.75"
  by (auto simp: e2eDots_def)

lemma grayImage_luminance:
  assumes "0 \<le> y" "y < 10" "0 \<le> x" "x < 10"
  shows "luminance (getImageData grayImage 10 10) ((y * 10 + x) * 4) = Some 127.5"
proof -
  let ?i = "(y * 10 + x) * 4"
  from idx_in_range [OF assms(3,4,1,2)] have i: "0 \<le> ?i" "?i + 3 < 4 * 10 * 10" by simp_all
  define z where "z = y * 10 + x"
  from assms(1,3) have z: "0 \<le> z" by (simp add: z_def)
  define n where "n = nat z"
  from z have e: "nat (z * 4) = 4 * n" "nat (z * 4 + 1) = 4 * n + 1" "nat (z * 4 + 2) = 4 * n + 2"
    unfolding n_def by (simp_all add: nat_mult_distrib nat_add_distrib)
  have m0: "(4 * n) mod 4 = 0" "(4 * n + 1) mod 4 = 1" "(4 * n + 2) mod 4 = 2"
    by presburger+
  have m: "nat ?i mod 4 = 0" "nat (?i + 1) mod 4 = 1" "nat (?i + 2) mod 4 = 2"
    unfolding z_def [symmetric] e by (fact m0)+
  have a0: "data_at (getImageData grayImage 10 10) ?i = Some 1"
    using i m by (subst data_at_getImageData) (simp_all add: grayImage_def)
  have a1: "data_at (getImageData grayImage 10 10) (?i + 1) = Some 173"
    using i m by (subst data_at_getImageData) (simp_all add: grayImage_def)
  have a2: "data_at (getImageData grayImage 10 10) (?i + 2) = Some 225"
    using i m by (subst data_at_getImageData) (simp_all add: grayImage_def)
  show ?thesis unfolding luminance_def a0 a1 a2 by simp
qed

section \<open>Number formats of the export\<close>

lemma digit_values: "map digit [0, 1, 2, 3, 4, 5, 6, 7, 8, 9] = ''0123456789''"
  by code_simp

lemma isDigit_digit: "d < 10 \<Longrightarrow> isDigit (digit d)"
proof -
  assume "d < 10"
  then have "d \<in> set [0, 1, 2, 3, 4, 5, 6, 7, 8, 9]" by auto
  then have "digit d \<in> set (map digit [0, 1, 2, 3, 4, 5, 6, 7, 8, 9])"
    by (simp only: set_map) (rule imageI)
  then show ?thesis by (simp only: digit_values isDigit_def)
qed

lemma isDigit_not_sign: "isDigit c \<Longrightarrow> c \<noteq> CHR ''-'' \<and> c \<noteq> CHR ''.''"
  by (auto simp: isDigit_def)

lemma digits_isDigit: "list_all isDigit (digits n) \<and> digits n \<noteq> []"
proof (induction n rule: digits.induct)
  case (1 n)
  show ?case
  proof (cases "n < 10")
    case True
    then show ?thesis by (subst (1 2) digits.simps) (simp add: isDigit_digit)
  next
    case False
    with "1.IH" show ?thesis by (subst (1 2) digits.simps) (simp add: isDigit_digit)
  qed
qed

lemma fixed2_unsigned:
  assumes "list_all isDigit a" and "a \<noteq> []" and "list_all isDigit b" and "length b = 2"
  shows "fixed2 (a @ ''.'' @ b)"
proof -
  from assms(1,2) obtain c u where a: "a = c # u" and c: "isDigit c"
    by (cases a) auto
  from c have "c \<noteq> CHR ''-''" by (simp add: isDigit_not_sign)
  with a have t: "(case a @ ''.'' @ b of [] \<Rightarrow> a @ ''.'' @ b
        | c # u \<Rightarrow> if c = CHR ''-'' then u else a @ ''.'' @ b) = a @ ''.'' @ b"
    by simp
  have k: "length (a @ ''.'' @ b) = length a + 3" using assms(4) by simp
  have n: "(a @ ''.'' @ b) ! length a = CHR ''.''" by (simp add: nth_append)
  show ?thesis
    unfolding fixed2_def t Let_def k
    using assms n by (simp add: Suc_le_eq)
qed

lemma fixed2_signed:
  assumes "list_all isDigit a" and "a \<noteq> []" and "list_all isDigit b" and "length b = 2"
  shows "fixed2 (''-'' @ a @ ''.'' @ b)"
proof -
  have t: "(case ''-'' @ a @ ''.'' @ b of [] \<Rightarrow> ''-'' @ a @ ''.'' @ b
            | c # u \<Rightarrow> if c = CHR ''-'' then u else ''-'' @ a @ ''.'' @ b) = a @ ''.'' @ b"
    by simp
  have k: "length (a @ ''.'' @ b) = length a + 3" using assms(4) by simp
  have n: "(a @ ''.'' @ b) ! length a = CHR ''.''" by (simp add: nth_append)
  show ?thesis
    unfolding fixed2_def t Let_def k
    using assms n by (simp add: Suc_le_eq)
qed

lemma toFixed2_fixed2:
  assumes "toFixed2 v = Some s"
  shows "fixed2 s"
proof -
  define n where "n = nat \<lfloor>\<bar>v\<bar> * 100 + 1 / 2\<rfloor>"
  define m where "m = (if length (digits n) \<le> 2
      then replicate (3 - length (digits n)) (CHR ''0'') @ digits n else digits n)"
  have z: "isDigit (CHR ''0'')" by (simp add: isDigit_def)
  have all: "list_all isDigit m"
    using digits_isDigit [of n] z by (simp add: m_def list_all_iff)
  have len: "3 \<le> length m" by (simp add: m_def)
  define a where "a = take (length m - 2) m"
  define b where "b = drop (length m - 2) m"
  from all have a: "list_all isDigit a" and b: "list_all isDigit b"
    by (auto simp: a_def b_def list_all_iff dest: in_set_takeD in_set_dropD)
  from len have a': "a \<noteq> []" and b': "length b = 2" by (auto simp: a_def b_def)
  from assms have "s = (if v < 0 then ''-'' else []) @ a @ ''.'' @ b"
    by (simp add: toFixed2_def Let_def n_def m_def a_def b_def split: if_splits)
  with fixed2_unsigned [OF a a' b b'] fixed2_signed [OF a a' b b'] show ?thesis
    by (simp split: if_splits)
qed

lemma those_map:
  "those (map f xs) = Some ys \<Longrightarrow>
     length ys = length xs \<and> (\<forall>i < length xs. f (xs ! i) = Some (ys ! i))"
proof (induction xs arbitrary: ys)
  case Nil
  then show ?case by simp
next
  case (Cons x xs)
  from Cons.prems obtain y ys' where y: "f x = Some y" "those (map f xs) = Some ys'" "ys = y # ys'"
    by (auto split: option.splits)
  from Cons.IH [OF y(2)] y(1,3) show ?case
    by (auto simp: nth_Cons split: nat.splits)
qed

lemma circleElement_Some:
  assumes "circleElement d = Some c"
  shows "\<exists>cx cy r. toFixed2 (dot_x d) = Some cx \<and> toFixed2 (dot_y d) = Some cy
           \<and> toFixed2 (dot_r d) = Some r \<and> c = circle cx cy r
           \<and> fixed2 cx \<and> fixed2 cy \<and> fixed2 r"
  using assms by (auto simp: circleElement_def toFixed2_fixed2 split: option.splits)

section \<open>Properties of a generation run\<close>

text \<open>
  Claim C3. The dots a run publishes are in row-major order: along the sequence the
  \<open>y\<close> coordinates never decrease, and among dots with the same \<open>y\<close> the \<open>x\<close>
  coordinates never decrease. This holds for every pair of positions in the sequence, for
  every configuration, picture and chunk schedule; a run with cells has a positive spacing.
\<close>

theorem row_major_order:
  assumes "generationRun config img ks = Published ds"
  shows "sorted_wrt rowMajor ds"
  using generationRun_Published [OF assms] rowMajor_gridDots
  by (simp split: if_splits)

theorem row_major_order_witness:
  "generationRun plate20 blackImage [1, 5] = Published plate20_dots
   \<and> sorted_wrt rowMajor plate20_dots"
proof -
  have h: "generationRun plate20 blackImage [1, 5] = Published plate20_dots"
    by code_simp
  from row_major_order [OF h] h show ?thesis by simp
qed

text \<open>
  Claim C6. When the effective width or the effective height is not positive, the run
  publishes the empty dot set, whatever the picture and the schedule; the outcome is a
  publication, not an exception.
\<close>

theorem degenerate_publishes_empty:
  assumes "effW config \<le> 0 \<or> effH config \<le> 0"
  shows "generationRun config img ks = Published []"
  using assms by (simp add: generationRun_def)

theorem degenerate_publishes_empty_witness:
  "(effW plateP4 \<le> 0 \<or> effH plateP4 \<le> 0)
   \<and> generationRun plateP4 blackImage [] = Published []"
proof -
  have h: "effW plateP4 \<le> 0 \<or> effH plateP4 \<le> 0"
    by (simp add: effW_def plateP4_def)
  from degenerate_publishes_empty [OF h, of blackImage "[]"] h show ?thesis by simp
qed

text \<open>
  Claim C9. The centre of every published dot lies strictly inside the area left by the
  margins: \<open>margin < x < width - margin\<close> and \<open>margin < y < height - margin\<close>. A run
  that has a cell has a positive spacing, so the statement needs no assumption on the
  configuration.
\<close>

theorem centers_inside_margin:
  assumes "generationRun config img ks = Published ds" and "d \<in> set ds"
  shows "margin config < dot_x d \<and> dot_x d < width config - margin config
       \<and> margin config < dot_y d \<and> dot_y d < height config - margin config"
proof -
  from assms obtain y x where c: "0 \<le> y" "y < rows config" "0 \<le> x" "x < cols config"
    "cellDot config (getImageData img (cols config) (rows config)) y x = Some d"
    by (rule Published_cases)
  from cellDot_Some [OF c(5)] physX_inside [OF c(3,4)] physY_inside [OF c(1,2)]
  show ?thesis by simp
qed

theorem centers_inside_margin_witness:
  "generationRun plate20 blackImage [2] = Published plate20_dots
   \<and> \<lparr>dot_x = 15, dot_y = 5, dot_r = 3\<rparr> \<in> set plate20_dots
   \<and> margin plate20 < 15 \<and> (15::real) < width plate20 - margin plate20
   \<and> margin plate20 < 5 \<and> (5::real) < height plate20 - margin plate20"
proof -
  have h: "generationRun plate20 blackImage [2] = Published plate20_dots"
    by code_simp
  have m: "\<lparr>dot_x = 15, dot_y = 5, dot_r = 3\<rparr> \<in> set plate20_dots"
    by (simp add: plate20_dots_def)
  from centers_inside_margin [OF h m] h m show ?thesis by simp
qed

text \<open>
  Claim C7. Every published dot has a radius above the emission cutoff of 0.1 mm, and a
  cell of the grid whose computed radius is at most 0.1 mm contributes no dot: no published
  dot has that cell's centre.
\<close>

theorem emission_cutoff:
  assumes "generationRun config img ks = Published ds"
  shows "(\<forall>d \<in> set ds. 0.1 < dot_r d) \<and>
         (\<forall>y x lum. 0 \<le> y \<and> y < rows config \<and> 0 \<le> x \<and> x < cols config
            \<and> luminance (getImageData img (cols config) (rows config)) ((y * cols config + x) * 4) = Some lum
            \<and> radius config (lum / 255) \<le> 0.1
            \<longrightarrow> (\<forall>d \<in> set ds. \<not> (dot_x d = physX config x \<and> dot_y d = physY config y)))"
proof (intro conjI ballI allI impI)
  fix d assume "d \<in> set ds"
  with assms obtain y x where "cellDot config (getImageData img (cols config) (rows config)) y x = Some d"
    by (rule Published_cases)
  from cellDot_Some [OF this] show "0.1 < dot_r d" by simp
next
  fix y x lum d
  assume h: "0 \<le> y \<and> y < rows config \<and> 0 \<le> x \<and> x < cols config
            \<and> luminance (getImageData img (cols config) (rows config)) ((y * cols config + x) * 4) = Some lum
            \<and> radius config (lum / 255) \<le> 0.1"
    and d: "d \<in> set ds"
  let ?data = "getImageData img (cols config) (rows config)"
  from h grid_column [of x config] have s: "0 < spacing config" by simp
  from assms d obtain y' x' where c: "cellDot config ?data y' x' = Some d"
    by (rule Published_cases)
  show "\<not> (dot_x d = physX config x \<and> dot_y d = physY config y)"
  proof
    assume e: "dot_x d = physX config x \<and> dot_y d = physY config y"
    with cellDot_Some [OF c] have "physX config x' = physX config x" "physY config y' = physY config y"
      by simp_all
    with s have "x' = x" "y' = y"
      by (auto dest: cellDot_physX_inj cellDot_physY_inj)
    with c have "cellDot config ?data y x = Some d" by simp
    with h show False by (simp add: cellDot_def split: if_splits)
  qed
qed

theorem emission_cutoff_witness:
  "generationRun plateCut halfImage [1] = Published [\<lparr>dot_x = 5, dot_y = 5, dot_r = 3\<rparr>]
   \<and> 0.1 < dot_r \<lparr>dot_x = 5, dot_y = 5, dot_r = 3\<rparr>
   \<and> 0 \<le> (0::int) \<and> 0 < rows plateCut \<and> 0 \<le> (1::int) \<and> 1 < cols plateCut
   \<and> luminance (getImageData halfImage (cols plateCut) (rows plateCut)) ((0 * cols plateCut + 1) * 4) = Some 255
   \<and> radius plateCut (255 / 255) \<le> 0.1
   \<and> \<not> (dot_x \<lparr>dot_x = 5, dot_y = 5, dot_r = 3\<rparr> = physX plateCut 1
         \<and> dot_y \<lparr>dot_x = 5, dot_y = 5, dot_r = 3\<rparr> = physY plateCut 0)"
proof -
  let ?d = "\<lparr>dot_x = 5, dot_y = 5, dot_r = 3\<rparr>"
  have h: "generationRun plateCut halfImage [1] = Published [?d]"
    by code_simp
  have g: "0 \<le> (0::int) \<and> 0 < rows plateCut \<and> 0 \<le> (1::int) \<and> 1 < cols plateCut
      \<and> luminance (getImageData halfImage (cols plateCut) (rows plateCut)) ((0 * cols plateCut + 1) * 4) = Some 255
      \<and> radius plateCut (255 / 255) \<le> 0.1"
    by code_simp
  have m: "?d \<in> set [?d]" by simp
  from emission_cutoff [OF h] m have a: "0.1 < dot_r ?d" by blast
  from emission_cutoff [OF h] g m
  have b: "\<not> (dot_x ?d = physX plateCut 1 \<and> dot_y ?d = physY plateCut 0)" by blast
  from h a g b show ?thesis by blast
qed

text \<open>
  Claim C10. With \<open>0 \<le> minHoleSize \<le> maxHoleSize\<close> a run publishes at most
  \<open>cols * rows\<close> dots, and exactly that many when \<open>minHoleSize\<close> exceeds 0.2 mm and the
  spacing is positive, as the configuration requires of every run.
\<close>

theorem dot_count:
  assumes "generationRun config img ks = Published ds"
    and "0 \<le> minHoleSize config" and "minHoleSize config \<le> maxHoleSize config"
  shows "int (length ds) \<le> cols config * rows config
       \<and> (0.2 < minHoleSize config \<and> 0 < spacing config
            \<longrightarrow> int (length ds) = cols config * rows config)"
proof (cases "effW config \<le> 0 \<or> effH config \<le> 0")
  case True
  with generationRun_Published [OF assms(1)] have "ds = []" by simp
  moreover from degenerate_grid [OF True] have "cols config * rows config = 0" .
  ultimately show ?thesis by (simp only: list.size of_nat_0) simp
next
  case False
  then have e: "0 < effW config" "0 < effH config" by simp_all
  let ?data = "getImageData img (cols config) (rows config)"
  from generationRun_Published [OF assms(1)] False have ds: "ds = gridDots config ?data" by simp
  from assms(1) False have s: "spacing config \<noteq> 0"
    by (auto simp: generationRun_def getImageDataThrows_def split: if_splits)
  show ?thesis
  proof (cases "0 < spacing config")
    case True
    with cols_sign [OF e(1)] rows_sign [OF e(2)] have p: "0 \<le> cols config" "0 \<le> rows config"
      by simp_all
    then have n: "int (nat (rows config) * nat (cols config)) = cols config * rows config"
      by simp
    from length_gridDots_le [of config ?data] ds
    have "int (length ds) \<le> int (nat (rows config) * nat (cols config))"
      by (simp only: of_nat_le_iff)
    with n have le: "int (length ds) \<le> cols config * rows config" by simp
    have "int (length ds) = cols config * rows config" if "0.2 < minHoleSize config"
      using length_gridDots_eq [OF p that assms(3), of img] ds n by simp
    with le show ?thesis by simp
  next
    case False
    with s have neg: "spacing config < 0" by simp
    with cols_sign [OF e(1)] rows_sign [OF e(2)] have "cols config < 0" "rows config < 0"
      by simp_all
    then have "0 < cols config * rows config" by (simp add: mult_neg_neg)
    moreover have "0 \<le> int (length ds)" by simp
    moreover from \<open>rows config < 0\<close> ds have "ds = []" by (simp add: gridDots_def)
    ultimately show ?thesis using neg by simp
  qed
qed

theorem dot_count_witness:
  "generationRun plate20 blackImage [2] = Published plate20_dots
   \<and> 0 \<le> minHoleSize plate20 \<and> minHoleSize plate20 \<le> maxHoleSize plate20
   \<and> 0.2 < minHoleSize plate20 \<and> 0 < spacing plate20
   \<and> int (length plate20_dots) \<le> cols plate20 * rows plate20
   \<and> int (length plate20_dots) = cols plate20 * rows plate20"
proof -
  have h: "generationRun plate20 blackImage [2] = Published plate20_dots"
    by code_simp
  have a: "0 \<le> minHoleSize plate20" "minHoleSize plate20 \<le> maxHoleSize plate20"
    "0.2 < minHoleSize plate20" "0 < spacing plate20"
    by (simp_all add: plate20_def)
  from dot_count [OF h a(1,2)] h a show ?thesis by simp
qed

text \<open>
  Claim C4. For the plate of 100 mm by 100 mm with spacing 10, no margin and hole sizes
  1 and 6, not inverted, and a picture whose luminance sample is exactly 0.5 in every cell,
  a run that publishes publishes the hundred dots of radius 1.75 mm centred at
  \<open>(5 + 10 i, 5 + 10 j)\<close> in row-major order, and it does publish once its chunks have
  covered the ten rows.
\<close>

theorem e2e_midgray:
  assumes "\<forall>y x. 0 \<le> y \<and> y < 10 \<and> 0 \<le> x \<and> x < 10 \<longrightarrow>
             (\<exists>lum. luminance (getImageData img 10 10) ((y * 10 + x) * 4) = Some lum \<and> lum / 255 = 0.5)"
  shows "(\<forall>ds. generationRun plateE2E img ks = Published ds \<longrightarrow> ds = e2eDots)
       \<and> (ks \<noteq> [] \<and> 10 \<le> sum_list ks \<longrightarrow> generationRun plateE2E img ks = Published e2eDots)
       \<and> length e2eDots = 100
       \<and> (\<forall>d \<in> set e2eDots. dot_r d = 1.75)"
proof -
  have e: "\<not> (effW plateE2E \<le> 0 \<or> effH plateE2E \<le> 0)"
    by (simp add: effW_def effH_def plateE2E_def)
  have p: "ds = e2eDots" if "generationRun plateE2E img ks = Published ds" for ds
    using generationRun_Published [OF that] e plateE2E_gridDots [OF assms]
    by (simp add: plateE2E_grid)
  have q: "generationRun plateE2E img ks = Published e2eDots" if "ks \<noteq> []" "10 \<le> sum_list ks"
  proof -
    have "\<not> getImageDataThrows plateE2E"
      by (simp add: getImageDataThrows_def plateE2E_grid) (simp add: plateE2E_def)
    moreover from that(2) have "rows plateE2E \<le> int (sum_list ks)" by (simp add: plateE2E_grid)
    ultimately have "\<exists>ds. generationRun plateE2E img ks = Published ds"
      using that(1) by (intro generationRun_completes)
    then obtain ds where "generationRun plateE2E img ks = Published ds" ..
    with p show ?thesis by simp
  qed
  from p q e2eDots_length e2eDots_radius show ?thesis by blast
qed

theorem e2e_midgray_witness:
  "luminance (getImageData grayImage 10 10) ((3 * 10 + 7) * 4) = Some 127.5
   \<and> (127.5 :: real) / 255 = 0.5
   \<and> [3, 3, 4] \<noteq> [] \<and> 10 \<le> sum_list [3, 3, 4 :: nat]
   \<and> generationRun plateE2E grayImage [3, 3, 4] = Published e2eDots
   \<and> length e2eDots = 100
   \<and> list_all (\<lambda>d. dot_r d = 1.75) e2eDots"
proof -
  have h: "\<forall>y x. 0 \<le> y \<and> y < 10 \<and> 0 \<le> x \<and> x < 10 \<longrightarrow>
      (\<exists>lum. luminance (getImageData grayImage 10 10) ((y * 10 + x) * 4) = Some lum \<and> lum / 255 = 0.5)"
  proof (intro allI impI)
    fix y x :: int
    assume "0 \<le> y \<and> y < 10 \<and> 0 \<le> x \<and> x < 10"
    then have "luminance (getImageData grayImage 10 10) ((y * 10 + x) * 4) = Some 127.5"
      by (intro grayImage_luminance) simp_all
    moreover have "(127.5 :: real) / 255 = 0.5" by simp
    ultimately show "\<exists>lum. luminance (getImageData grayImage 10 10) ((y * 10 + x) * 4) = Some lum
        \<and> lum / 255 = 0.5"
      by blast
  qed
  have s: "luminance (getImageData grayImage 10 10) ((3 * 10 + 7) * 4) = Some 127.5"
    by (intro grayImage_luminance) simp_all
  have k: "[3, 3, 4] \<noteq> [] \<and> 10 \<le> sum_list [3, 3, 4 :: nat]" by simp
  from e2e_midgray [OF h, of "[3, 3, 4]"] k
  have "generationRun plateE2E grayImage [3, 3, 4] = Published e2eDots"
    "length e2eDots = 100" "list_all (\<lambda>d. dot_r d = 1.75) e2eDots"
    by (simp_all only: list_all_iff) blast+
  with s k show ?thesis by simp
qed

section \<open>Properties of the export\<close>

text \<open>
  Claim C8, as amended. In an exported document the values \<open>cx\<close>, \<open>cy\<close> and \<open>r\<close> of
  every circle are written with fixed 2-decimal precision. The width and the height of the
  document, the view box and the boundary rectangle carry the plain conversion of the
  configured width and height: the shortest numeral of the number, with as many decimal
  places as it has.
\<close>

theorem export_precision:
  assumes "handleExport config dots = Svg doc"
  shows "\<exists>w h cs. numberToString (width config) = Some w \<and> numberToString (height config) = Some h
           \<and> doc = trim (svgTemplate w h (concat cs)) \<and> length cs = length dots
           \<and> (\<forall>i < length dots. \<exists>cx cy r.
                 toFixed2 (dot_x (dots ! i)) = Some cx \<and> toFixed2 (dot_y (dots ! i)) = Some cy
                 \<and> toFixed2 (dot_r (dots ! i)) = Some r \<and> cs ! i = circle cx cy r
                 \<and> fixed2 cx \<and> fixed2 cy \<and> fixed2 r)"
proof -
  from assms obtain w h cs where w: "numberToString (width config) = Some w"
    and h: "numberToString (height config) = Some h"
    and cs: "those (map circleElement dots) = Some cs"
    and doc: "doc = trim (svgTemplate w h (concat cs))"
    by (auto simp: handleExport_def svgContent_def split: if_splits option.splits)
  from those_map [OF cs] have l: "length cs = length dots"
    and e: "\<forall>i < length dots. circleElement (dots ! i) = Some (cs ! i)" by simp_all
  have "\<forall>i < length dots. \<exists>cx cy r.
                 toFixed2 (dot_x (dots ! i)) = Some cx \<and> toFixed2 (dot_y (dots ! i)) = Some cy
                 \<and> toFixed2 (dot_r (dots ! i)) = Some r \<and> cs ! i = circle cx cy r
                 \<and> fixed2 cx \<and> fixed2 cy \<and> fixed2 r"
    using e circleElement_Some by blast
  with w h doc l show ?thesis by blast
qed

theorem export_precision_witness:
  "handleExport plateFraction oneDot = Svg plateFraction_svg
   \<and> numberToString (width plateFraction) = Some ''20.5''
   \<and> numberToString (height plateFraction) = Some ''20.25''
   \<and> (\<exists>w h cs. numberToString (width plateFraction) = Some w
           \<and> numberToString (height plateFraction) = Some h
           \<and> plateFraction_svg = trim (svgTemplate w h (concat cs)) \<and> length cs = length oneDot
           \<and> (\<forall>i < length oneDot. \<exists>cx cy r.
                 toFixed2 (dot_x (oneDot ! i)) = Some cx \<and> toFixed2 (dot_y (oneDot ! i)) = Some cy
                 \<and> toFixed2 (dot_r (oneDot ! i)) = Some r \<and> cs ! i = circle cx cy r
                 \<and> fixed2 cx \<and> fixed2 cy \<and> fixed2 r))"
proof -
  have h: "handleExport plateFraction oneDot = Svg plateFraction_svg"
    by code_simp
  have n: "numberToString (width plateFraction) = Some ''20.5''"
    "numberToString (height plateFraction) = Some ''20.25''"
    by code_simp+
  from export_precision [OF h] h n show ?thesis by (intro conjI)
qed

text \<open>
  Claim C8 as stated fails: for a plate of width 20 the document has the attribute
  \<open>width\<close> with the value \<open>20mm\<close>, where fixed 2-decimal precision would give \<open>20.00\<close>,
  so the document differs from the one in which every number is written by \<open>toFixed(2)\<close>.
\<close>

theorem export_precision_counterexample:
  "handleExport plate20 oneDot = Svg plate20_svg
   \<and> numberToString (width plate20) = Some ''20''
   \<and> toFixed2 (width plate20) = Some ''20.00''
   \<and> \<not> fixed2 ''20''
   \<and> svgContentFixed2 plate20 oneDot \<noteq> Some plate20_svg"
  by code_simp

section \<open>Chunks and tokens\<close>























section \<open>Cancellation\<close>



end
